theory Spec2Isabelle
  imports Complex_Main "HOL-Library.Multiset"
begin

section \<open>JavaScript primitives used by the crawler\<close>

text \<open>
  Strings are lists of code units, of which the model has those below 256.
  \<open>String.prototype.split\<close> with a separator string
  cuts at every non-overlapping occurrence of the separator, scanning left to right; an
  empty separator cuts between all code units. The optional limit truncates the array of
  pieces (it does not join the tail into the last piece).
\<close>

function split_from :: "string \<Rightarrow> string \<Rightarrow> string \<Rightarrow> string list" where
  "split_from sep cur [] = [cur]"
| "split_from sep cur (c # cs) =
     (if sep \<noteq> [] \<and> take (length sep) (c # cs) = sep
      then cur # split_from sep [] (drop (length sep - 1) cs)
      else split_from sep (cur @ [c]) cs)"
  by pat_completeness auto
termination
  by (relation "measure (\<lambda>(sep, cur, s). length s)") auto

definition split :: "string \<Rightarrow> string \<Rightarrow> string list" where
  "split sep s = (if sep = [] then map (\<lambda>c. [c]) s else split_from sep [] s)"

definition split_limit :: "string \<Rightarrow> nat \<Rightarrow> string \<Rightarrow> string list" where
  "split_limit sep limit s = take limit (split sep s)"

text \<open>
  \<open>substring(0, n)\<close> and \<open>substring(n)\<close> clamp their indices to the length of the string.
\<close>

definition substring_to :: "nat \<Rightarrow> string \<Rightarrow> string" where
  "substring_to n s = take n s"

definition substring_from :: "nat \<Rightarrow> string \<Rightarrow> string" where
  "substring_from n s = drop n s"

text \<open>
  A JavaScript number produced by \<open>parseInt\<close> is an integer or NaN; it is modelled as
  \<open>int option\<close> with \<open>None\<close> for NaN. The model keeps every integer exactly, where a
  double rounds magnitudes above \<open>2^53\<close>. Comparisons follow IEEE: \<open>>\<close> is false and
  \<open>!=\<close> is true as soon as one operand is NaN.
\<close>

type_synonym number = "int option"

definition js_gt :: "number \<Rightarrow> number \<Rightarrow> bool" where
  "js_gt x y = (case x of None \<Rightarrow> False | Some a \<Rightarrow> (case y of None \<Rightarrow> False | Some b \<Rightarrow> a > b))"

definition js_ne :: "number \<Rightarrow> number \<Rightarrow> bool" where
  "js_ne x y = (case x of None \<Rightarrow> True | Some a \<Rightarrow> (case y of None \<Rightarrow> True | Some b \<Rightarrow> a \<noteq> b))"

text \<open>
  \<open>parseInt(s)\<close> without a radix: leading white space is skipped, one sign is read, a
  \<open>0x\<close> or \<open>0X\<close> prefix selects radix 16 (radix 10 otherwise), and the longest run of
  digits of that radix is converted; no digit at all gives NaN. Whatever follows the digits
  is ignored. The white space below 256 is tab, line feed, vertical tab, form feed, carriage
  return, space and no-break space.
\<close>

definition isWhiteSpace :: "char \<Rightarrow> bool" where
  "isWhiteSpace c = ((of_char c :: nat) \<in> {9, 10, 11, 12, 13, 32, 160})"

definition digitValue :: "char \<Rightarrow> nat option" where
  "digitValue c =
     (let n = (of_char c :: nat) in
      if 48 \<le> n \<and> n \<le> 57 then Some (n - 48)
      else if 97 \<le> n \<and> n \<le> 122 then Some (n - 87)
      else if 65 \<le> n \<and> n \<le> 90 then Some (n - 55)
      else None)"

definition isRadixDigit :: "nat \<Rightarrow> char \<Rightarrow> bool" where
  "isRadixDigit R c = (case digitValue c of None \<Rightarrow> False | Some d \<Rightarrow> d < R)"

definition radixValue :: "nat \<Rightarrow> string \<Rightarrow> int" where
  "radixValue R Z = foldl (\<lambda>acc c. acc * int R + (case digitValue c of None \<Rightarrow> 0 | Some d \<Rightarrow> int d)) 0 Z"

definition parseInt :: "string \<Rightarrow> number" where
  "parseInt inputString =
     (let S = dropWhile isWhiteSpace inputString;
          sign = (if S \<noteq> [] \<and> hd S = CHR ''-'' then - 1 else (1::int));
          S = (if S \<noteq> [] \<and> (hd S = CHR ''+'' \<or> hd S = CHR ''-'') then tl S else S);
          hex = (take 2 S = ''0x'' \<or> take 2 S = ''0X'');
          R = (if hex then 16 else 10);
          S = (if hex then drop 2 S else S);
          Z = takeWhile (isRadixDigit R) S
      in if Z = [] then None else Some (sign * radixValue R Z))"

section \<open>Python package versions\<close>

datatype error = TypeError | RateLimitReached rat | Rejected string

record PythonPackageVersion =
  epoch :: number
  first :: number
  rest :: "number list"
  isPrerelease :: bool

text \<open>
  The body of the loop over \<open>parts.slice(1)\<close> in \<open>parsePythonPackageVersion\<close>: the
  marker found in the segment decides what is cut from it and whether the version becomes
  a prerelease; the integer read from what is left is pushed onto \<open>rest\<close>.
\<close>

definition parsePart :: "PythonPackageVersion \<Rightarrow> string \<Rightarrow> PythonPackageVersion" where
  "parsePart version part =
     (let alpha = split_limit ''a'' 2 part;
          beta = split_limit ''b'' 2 part;
          releaseCandidate = split_limit ''rc'' 2 part;
          (version, part) =
            (if substring_to 3 part = ''dev''
               then (version\<lparr>isPrerelease := True\<rparr>, substring_from 3 part)
             else if substring_to 4 part = ''post''
               then (version, substring_from 4 part)
             else if length alpha = 2
               then (version\<lparr>isPrerelease := True\<rparr>, alpha ! 0)
             else if length beta = 2
               then (version\<lparr>isPrerelease := True\<rparr>, beta ! 0)
             else if length releaseCandidate = 2
               then (version\<lparr>isPrerelease := True\<rparr>, releaseCandidate ! 0)
             else (version, part))
      in version\<lparr>rest := rest version @ [parseInt part]\<rparr>)"

text \<open>
  \<open>parsePythonPackageVersion\<close>. When the string holds an epoch separator the source
  continues with \<open>versionString[1]\<close>, the second code unit of the string, which is
  \<open>undefined\<close> for a string of one code unit: the following \<open>split\<close> then throws a
  TypeError.
\<close>

definition parsePythonPackageVersion :: "string \<Rightarrow> error + PythonPackageVersion" where
  "parsePythonPackageVersion versionString =
     (let version = \<lparr>epoch = Some 0, first = Some 0, rest = [], isPrerelease = False\<rparr>;
          epochPart = split_limit ''!'' 2 versionString
      in case (if length epochPart = 2
               then (if 1 < length versionString
                     then Inr (version\<lparr>epoch := parseInt (epochPart ! 0)\<rparr>, [versionString ! 1])
                     else Inl TypeError)
               else Inr (version, versionString)) of
           Inl e \<Rightarrow> Inl e
         | Inr (version, versionString) \<Rightarrow>
             (case split ''.'' versionString of
                [] \<Rightarrow> Inr (version\<lparr>first := None\<rparr>)
              | p # ps \<Rightarrow> Inr (foldl parsePart (version\<lparr>first := parseInt p\<rparr>) ps)))"

text \<open>
  \<open>greaterThanPythonPackageVersion\<close>: the loop over the common indices of the two
  \<open>rest\<close> arrays, then the comparison of their lengths.
\<close>

function restLoop :: "nat \<Rightarrow> number list \<Rightarrow> number list \<Rightarrow> bool" where
  "restLoop i ra rb =
     (if i < length ra \<and> i < length rb
      then (if js_ne (ra ! i) (rb ! i) then js_gt (ra ! i) (rb ! i) else restLoop (i + 1) ra rb)
      else length ra > length rb)"
  by pat_completeness auto
termination
  by (relation "measure (\<lambda>(i, ra, rb). length ra - i)") auto

declare restLoop.simps [simp del]

definition greaterThanPythonPackageVersion ::
  "PythonPackageVersion \<Rightarrow> PythonPackageVersion \<Rightarrow> bool" where
  "greaterThanPythonPackageVersion a b =
     (if isPrerelease a \<and> \<not> isPrerelease b then False
      else if \<not> isPrerelease a \<and> isPrerelease b then True
      else if js_gt (first a) (first b) then True
      else restLoop 0 (rest a) (rest b))"

text \<open>
  The selection loop of \<open>queryDependencyPyPI\<close> over the keys of \<open>data.releases\<close>, in
  the order the \<open>for ... in\<close> loop visits them (keys that are array indices first, in
  ascending order, then the other keys in the order of their insertion). The request to
  the registry and the token bucket are outside the model, which starts from the keys
  received. An exception thrown by the parser leaves the function.
\<close>

fun selectLoop ::
  "string \<times> PythonPackageVersion \<Rightarrow> string list \<Rightarrow> error + string \<times> PythonPackageVersion" where
  "selectLoop best [] = Inr best"
| "selectLoop (bestVersion, bestVersionObject) (release # releases) =
     (case parsePythonPackageVersion release of
        Inl e \<Rightarrow> Inl e
      | Inr version \<Rightarrow>
          if greaterThanPythonPackageVersion version bestVersionObject
          then selectLoop (release, version) releases
          else selectLoop (bestVersion, bestVersionObject) releases)"

definition queryDependencyPyPI :: "string list \<Rightarrow> error + string" where
  "queryDependencyPyPI releases =
     (case selectLoop (''0'', \<lparr>epoch = Some 0, first = Some 0, rest = [], isPrerelease = True\<rparr>) releases of
        Inl e \<Rightarrow> Inl e
      | Inr (bestVersion, bestVersionObject) \<Rightarrow> Inr bestVersion)"

text \<open>
  The ranking as the specification words it, for comparison with the code: a version
  without prerelease marker outranks one with it; otherwise the greater major wins; on
  equal majors the first differing pair of components decides, and when one sequence is a
  prefix of the other the longer one wins.
\<close>

fun spec_components_greater :: "number list \<Rightarrow> number list \<Rightarrow> bool" where
  "spec_components_greater (x # xs) (y # ys) =
     (if x = y then spec_components_greater xs ys else js_gt x y)"
| "spec_components_greater (x # xs) [] = True"
| "spec_components_greater [] ys = False"

definition spec_greaterThan :: "PythonPackageVersion \<Rightarrow> PythonPackageVersion \<Rightarrow> bool" where
  "spec_greaterThan a b =
     (if isPrerelease a \<noteq> isPrerelease b then \<not> isPrerelease a
      else js_gt (first a) (first b)
         \<or> (first a = first b \<and> spec_components_greater (rest a) (rest b)))"

section \<open>Insertion-ordered maps and sets\<close>

text \<open>
  A JavaScript \<open>Map\<close> iterates in insertion order: it is an association list in which
  \<open>set\<close> replaces the value of a present key in place and appends an absent one. A
  \<open>Set\<close> is a list in which \<open>add\<close> appends a value only when it is absent.
\<close>

type_synonym ('k, 'v) jsmap = "('k \<times> 'v) list"

definition map_has :: "'k \<Rightarrow> ('k, 'v) jsmap \<Rightarrow> bool" where
  "map_has k m = (k \<in> set (map fst m))"

definition map_get :: "'k \<Rightarrow> ('k, 'v) jsmap \<Rightarrow> 'v option" where
  "map_get k m = map_of m k"

fun map_set :: "'k \<Rightarrow> 'v \<Rightarrow> ('k, 'v) jsmap \<Rightarrow> ('k, 'v) jsmap" where
  "map_set k v [] = [(k, v)]"
| "map_set k v ((k', v') # m) = (if k = k' then (k, v) # m else (k', v') # map_set k v m)"

definition set_add :: "'a \<Rightarrow> 'a list \<Rightarrow> 'a list" where
  "set_add x s = (if x \<in> set s then s else s @ [x])"

definition endsWith :: "string \<Rightarrow> string \<Rightarrow> bool" where
  "endsWith s ext = (length ext \<le> length s \<and> drop (length s - length ext) s = ext)"

section \<open>Manifest extraction\<close>

record DependencyGraphDependency =
  packageName :: string
  requirements :: string

text \<open>
  One manifest of a repository as the response gives it: \<open>file.node\<close> of an edge
  (\<open>blobPath\<close>, \<open>dependencies.totalCount\<close>, \<open>dependencies.nodes\<close>); the file names come
  from the parallel array \<open>dependencyGraphManifests.nodes\<close>.
\<close>

record ManifestFile =
  node_blobPath :: string
  totalCount :: int
  dependency_nodes :: "DependencyGraphDependency list"

record UpperBranchManifest =
  repo_name :: string
  repo_url :: string
  repo_isArchived :: bool
  manifest_edges :: "ManifestFile list"
  manifest_filenames :: "string list"

record BlobPathDeps =
  subPath :: string
  blobPath :: string
  version :: string
  dependencies :: "DependencyGraphDependency list"

record RepoDepObj =
  manifest :: UpperBranchManifest
  packageMap :: "(string, BlobPathDeps list) jsmap"

definition packageManagers :: "(string \<times> string list) list" where
  "packageManagers = [(''NPM'', [''package.json'']), (''PYPI'', [''requirements.txt''])]"

definition blobPathDeps ::
  "string \<Rightarrow> string \<Rightarrow> string \<Rightarrow> DependencyGraphDependency list \<Rightarrow> BlobPathDeps" where
  "blobPathDeps sp bp v deps = \<lparr>subPath = sp, blobPath = bp, version = v, dependencies = deps\<rparr>"

text \<open>\<open>packageMap.get(name).push(entry)\<close>; the key has been set just before.\<close>

definition map_push :: "'k \<Rightarrow> 'v \<Rightarrow> ('k, 'v list) jsmap \<Rightarrow> ('k, 'v list) jsmap" where
  "map_push k x m = (case map_get k m of None \<Rightarrow> m | Some xs \<Rightarrow> map_set k (xs @ [x]) m)"

text \<open>The body of the test \<open>subPath.endsWith(ext)\<close> for one manager.\<close>

definition recordManifest ::
  "string \<Rightarrow> string \<Rightarrow> ManifestFile \<Rightarrow> (string, BlobPathDeps list) jsmap
     \<Rightarrow> (string, BlobPathDeps list) jsmap" where
  "recordManifest managerName sp file pm =
     (let blobPath = node_blobPath file;
          version = '''';
          depCount = totalCount file;
          pm = (if \<not> map_has managerName pm then map_set managerName [] pm else pm)
      in if depCount > 0
         then map_push managerName (blobPathDeps sp blobPath version (dependency_nodes file)) pm
         else map_push managerName (blobPathDeps sp blobPath version []) pm)"

definition extensionLoop ::
  "string \<Rightarrow> ManifestFile \<Rightarrow> (string, BlobPathDeps list) jsmap \<Rightarrow> string \<times> string list
     \<Rightarrow> (string, BlobPathDeps list) jsmap" where
  "extensionLoop sp file pm packageManager =
     foldl (\<lambda>pm ext. if endsWith sp ext then recordManifest (fst packageManager) sp file pm else pm)
       pm (snd packageManager)"

definition managerLoop ::
  "string \<Rightarrow> ManifestFile \<Rightarrow> (string, BlobPathDeps list) jsmap
     \<Rightarrow> (string, BlobPathDeps list) jsmap" where
  "managerLoop sp file pm = foldl (extensionLoop sp file) pm packageManagers"

text \<open>
  The loop over the files. The file name is read from \<open>nodes[index]\<close>; when that array is
  shorter than the array of edges the read of \<open>.filename\<close> on \<open>undefined\<close> throws.
\<close>

fun fileLoop ::
  "nat \<Rightarrow> string list \<Rightarrow> (string, BlobPathDeps list) jsmap \<Rightarrow> ManifestFile list
     \<Rightarrow> error + (string, BlobPathDeps list) jsmap" where
  "fileLoop index filenames pm [] = Inr pm"
| "fileLoop index filenames pm (file # files) =
     (if index < length filenames
      then fileLoop (index + 1) filenames (managerLoop (filenames ! index) file pm) files
      else Inl TypeError)"

definition getRepoDependencies :: "UpperBranchManifest \<Rightarrow> error + RepoDepObj" where
  "getRepoDependencies repo =
     (case fileLoop 0 (manifest_filenames repo) [] (manifest_edges repo) of
        Inl e \<Rightarrow> Inl e
      | Inr pm \<Rightarrow> Inr \<lparr>manifest = repo, packageMap = pm\<rparr>)"

section \<open>Merging the dependency names\<close>

record Repository =
  name :: string
  repository_version :: string
  link :: string
  isArchived :: bool
  repository_dependencies :: "(string, string) jsmap"

definition addDependency ::
  "string \<Rightarrow> (string, string list) jsmap \<Rightarrow> string \<Rightarrow> (string, string list) jsmap" where
  "addDependency packageManager deps depName =
     (let deps = (if \<not> map_has packageManager deps then map_set packageManager [] deps else deps)
      in case map_get packageManager deps of
           None \<Rightarrow> deps
         | Some names \<Rightarrow> map_set packageManager (set_add depName names) deps)"

definition mergeRepo ::
  "string \<Rightarrow> (string, string list) jsmap \<Rightarrow> Repository \<Rightarrow> (string, string list) jsmap" where
  "mergeRepo packageManager deps repo =
     foldl (addDependency packageManager) deps (map fst (repository_dependencies repo))"

definition mergeManager ::
  "(string, string list) jsmap \<Rightarrow> string \<times> Repository list \<Rightarrow> (string, string list) jsmap" where
  "mergeManager deps entry = foldl (mergeRepo (fst entry)) deps (snd entry)"

text \<open>
  \<open>mergeDependenciesLists\<close>: the first loop fills \<open>deps\<close>; the second copies every set
  into an array, in the order of the set, under the same key.
\<close>

definition mergeDependenciesLists ::
  "(string, Repository list) jsmap \<Rightarrow> (string, string list) jsmap" where
  "mergeDependenciesLists managerRepos =
     (let deps = foldl mergeManager [] managerRepos
      in foldl (\<lambda>managerDeps (key, val). map_set key val managerDeps) [] deps)"

section \<open>Scraping an organisation: pagination\<close>

text \<open>
  \<open>scrapeOrganisation\<close> begins with two phases: the \<open>do ... while\<close> loop that collects
  the cursors of all repositories, here \<open>listCursors\<close>, and the batched fetch of the
  dependency pages, here \<open>fetchBatches\<close>.

  One page of the repository query, with the fields the loop reads: the cursors of
  \<open>organization.repositories.edges\<close>, \<open>pageInfo\<close> and \<open>rateLimit\<close>. \<open>resetAt\<close> is
  the time value of the reported date and the clock is \<open>Date.now()\<close>, both in
  milliseconds.
\<close>

record OrgRepos =
  edge_cursors :: "string list"
  pageInfo_hasNextPage :: bool
  pageInfo_endCursor :: "string option"
  rateLimit_remaining :: int
  rateLimit_resetAt :: int

text \<open>
  The upstream service is a transition on a world \<open>'w\<close>: given the cursor argument of
  the call it answers with a page or rejects. \<open>requested\<close> logs the cursor argument of
  every call made, in order; \<open>None\<close> is \<open>null\<close>.
\<close>

record 'w scrape_state =
  world :: 'w
  requested :: "string option list"
  repoCursors :: "string option list"
  hasNextPage :: bool
  repoCursor :: "string option"

definition MINIMUM_GITHUB_POINTS :: int where
  "MINIMUM_GITHUB_POINTS = 10"

text \<open>
  The body of the \<open>do ... while\<close> loop. The call is
  \<open>queryRepositories(config.targetOrganisation, null)\<close>: its cursor argument is the
  literal \<open>null\<close>. The result pairs the exception thrown, if any, with the state reached.
  \<open>diff_seconds\<close> is kept as an exact rational, where the source divides doubles.
\<close>

definition pageRequest ::
  "('w \<Rightarrow> string option \<Rightarrow> (error + OrgRepos) \<times> 'w) \<Rightarrow> ('w \<Rightarrow> int) \<Rightarrow> 'w scrape_state
     \<Rightarrow> error option \<times> 'w scrape_state" where
  "pageRequest queryRepositories dateNow st =
     (case queryRepositories (world st) None of
        (Inl e, w) \<Rightarrow> (Some e, st\<lparr>world := w, requested := requested st @ [None]\<rparr>)
      | (Inr response, w) \<Rightarrow>
          (let st = st\<lparr>world := w, requested := requested st @ [None]\<rparr>;
               st = st\<lparr>repoCursors := repoCursors st @ map Some (edge_cursors response)\<rparr>;
               st = st\<lparr>hasNextPage := pageInfo_hasNextPage response\<rparr>;
               st = (if hasNextPage st then st\<lparr>repoCursor := pageInfo_endCursor response\<rparr> else st);
               remaining = rateLimit_remaining response;
               resetDate = rateLimit_resetAt response
           in if remaining < MINIMUM_GITHUB_POINTS
              then (let diff_seconds = of_int \<bar>resetDate - dateNow (world st)\<bar> / 1000
                    in (Some (RateLimitReached diff_seconds), st))
              else (None, st)))"

text \<open>
  The loop, with fuel: \<open>None\<close> says that the loop has not left after that many pages.
\<close>

fun pagingLoop ::
  "nat \<Rightarrow> ('w \<Rightarrow> string option \<Rightarrow> (error + OrgRepos) \<times> 'w) \<Rightarrow> ('w \<Rightarrow> int) \<Rightarrow> 'w scrape_state
     \<Rightarrow> (error option \<times> 'w scrape_state) option" where
  "pagingLoop 0 queryRepositories dateNow st = None"
| "pagingLoop (Suc fuel) queryRepositories dateNow st =
     (case pageRequest queryRepositories dateNow st of
        (Some e, st') \<Rightarrow> Some (Some e, st')
      | (None, st') \<Rightarrow>
          if hasNextPage st' then pagingLoop fuel queryRepositories dateNow st'
          else Some (None, st'))"

definition initialState :: "'w \<Rightarrow> 'w scrape_state" where
  "initialState w =
     \<lparr>world = w, requested = [], repoCursors = [], hasNextPage = False, repoCursor = None\<rparr>"

definition listCursors ::
  "nat \<Rightarrow> ('w \<Rightarrow> string option \<Rightarrow> (error + OrgRepos) \<times> 'w) \<Rightarrow> ('w \<Rightarrow> int) \<Rightarrow> 'w
     \<Rightarrow> (error option \<times> 'w scrape_state) option" where
  "listCursors fuel queryRepositories dateNow w =
     pagingLoop fuel queryRepositories dateNow (initialState w)"

text \<open>
  Two sources of two pages for the pagination test. The first serves pages by the cursor
  asked for, as the upstream service does: the first page for \<open>null\<close>, the second page for
  the end cursor of the first. The second is a script that hands out its pages one after
  the other whatever cursor is asked for.
\<close>

definition page1 :: OrgRepos where
  "page1 = \<lparr>edge_cursors = [''a'', ''b''], pageInfo_hasNextPage = True,
            pageInfo_endCursor = Some ''b'', rateLimit_remaining = 5000, rateLimit_resetAt = 0\<rparr>"

definition page2 :: OrgRepos where
  "page2 = \<lparr>edge_cursors = [''c''], pageInfo_hasNextPage = False,
            pageInfo_endCursor = Some ''c'', rateLimit_remaining = 5000, rateLimit_resetAt = 0\<rparr>"

definition sourceByCursor :: "unit \<Rightarrow> string option \<Rightarrow> (error + OrgRepos) \<times> unit" where
  "sourceByCursor w cursor =
     (if cursor = None then (Inr page1, ())
      else if cursor = Some ''b'' then (Inr page2, ())
      else (Inl (Rejected ''unknown cursor''), ()))"

definition sourceByScript :: "OrgRepos list \<Rightarrow> string option \<Rightarrow> (error + OrgRepos) \<times> OrgRepos list" where
  "sourceByScript w cursor =
     (case w of [] \<Rightarrow> (Inl (Rejected ''no more pages''), []) | p # ps \<Rightarrow> (Inr p, ps))"

section \<open>Scraping an organisation: batched fetch\<close>

definition numOfPages :: nat where
  "numOfPages = 3"

text \<open>\<open>repoCursors[0] = null\<close>: an assignment past the end of an array extends it.\<close>

definition overwriteFirst :: "string option list \<Rightarrow> string option list" where
  "overwriteFirst cursors = (if cursors = [] then [None] else cursors[0 := None])"

text \<open>
  One call of \<open>queryDependencies(org, numOfPages, repoCursors[curCursor])\<close>, with the
  loop index \<open>curCursorCopy\<close> its callbacks close over.
\<close>

record request =
  curCursorCopy :: nat
  pageSize :: nat
  anchor :: "string option"

function issueLoop :: "nat \<Rightarrow> string option list \<Rightarrow> request list" where
  "issueLoop curCursor cursors =
     (if curCursor < length cursors
      then \<lparr>curCursorCopy = curCursor, pageSize = numOfPages, anchor = cursors ! curCursor\<rparr>
             # issueLoop (curCursor + numOfPages) cursors
      else [])"
  by pat_completeness auto
termination
  by (relation "measure (\<lambda>(curCursor, cursors). length cursors - curCursor)")
     (auto simp: numOfPages_def)

declare issueLoop.simps [simp del]

text \<open>
  The callbacks of one request, run when its promise settles: \<open>then\<close> pushes the response,
  \<open>catch\<close> pushes \<open>repoCursors[curCursorCopy]\<close>. A read past the end of the array gives
  \<open>undefined\<close>, which the model does not tell from \<open>null\<close>.
\<close>

definition onSettled ::
  "(request \<Rightarrow> error + 'r) \<Rightarrow> string option list \<Rightarrow> 'r list \<times> string option list \<Rightarrow> request
     \<Rightarrow> 'r list \<times> string option list" where
  "onSettled queryDependencies cursors acc req =
     (case queryDependencies req of
        Inr r \<Rightarrow> (fst acc @ [r], snd acc)
      | Inl e \<Rightarrow>
          (fst acc, snd acc @ [if curCursorCopy req < length cursors
                               then cursors ! curCursorCopy req else None]))"

text \<open>
  The batched fetch. All requests are issued before any settles; \<open>settleOrder\<close> is the
  order in which the promises settle, chosen by the environment among the orders of the
  issued requests. \<open>Promise.all\<close> resumes once every callback has run. The result is
  \<open>(successfullResponses, failedResponses)\<close>.
\<close>

definition fetchBatches ::
  "(request \<Rightarrow> error + 'r) \<Rightarrow> (request list \<Rightarrow> request list) \<Rightarrow> string option list
     \<Rightarrow> 'r list \<times> string option list" where
  "fetchBatches queryDependencies settleOrder repoCursors0 =
     (let cursors = overwriteFirst repoCursors0;
          issued = issueLoop 0 cursors
      in foldl (onSettled queryDependencies cursors) ([], []) (settleOrder issued))"

section \<open>Auxiliary notions for the statements\<close>

text \<open>
  All dependency names declared under manager \<open>m\<close>, with their multiplicity: one
  occurrence per repository entry and declaration.
\<close>

definition declaredNames :: "(string, Repository list) jsmap \<Rightarrow> string \<Rightarrow> string list" where
  "declaredNames managerRepos m =
     concat (map (\<lambda>repo. map fst (repository_dependencies repo))
       (concat (map snd (filter (\<lambda>entry. fst entry = m) managerRepos))))"

text \<open>
  The invariant of the first loop of \<open>mergeDependenciesLists\<close>: the keys of \<open>deps\<close> are
  distinct and every key holds, without repetition, the names seen so far for it.
\<close>

definition merged :: "(string, string list) jsmap \<Rightarrow> (string \<Rightarrow> string set) \<Rightarrow> bool" where
  "merged deps seen \<longleftrightarrow>
     distinct (map fst deps) \<and>
     (\<forall>k. map_of deps k = None \<longrightarrow> seen k = {}) \<and>
     (\<forall>k xs. map_of deps k = Some xs \<longrightarrow> distinct xs \<and> set xs = seen k \<and> xs \<noteq> [])"

text \<open>
  The entries the claim on manifests expects under a manager: one for every file whose
  name ends with an extension of that manager, in the order of the files, holding the
  declared dependencies, or none when the file declares no dependency.
\<close>

definition managerMatches :: "string \<Rightarrow> string \<Rightarrow> bool" where
  "managerMatches managerName sp =
     list_ex (\<lambda>packageManager. fst packageManager = managerName \<and> list_ex (endsWith sp) (snd packageManager))
       packageManagers"

definition recordedManifests :: "UpperBranchManifest \<Rightarrow> string \<Rightarrow> BlobPathDeps list" where
  "recordedManifests repo managerName =
     map (\<lambda>(sp, file). \<lparr>subPath = sp, blobPath = node_blobPath file, version = '''',
                         dependencies = (if 0 < totalCount file then dependency_nodes file else [])\<rparr>)
       (filter (\<lambda>(sp, file). managerMatches managerName sp)
          (zip (manifest_filenames repo) (manifest_edges repo)))"

section \<open>Version parsing and ranking\<close>

lemma split_from_absent:
  "c \<notin> set s \<Longrightarrow> split_from [c] cur s = [cur @ s]"
  by (induction s arbitrary: cur) auto

lemma split_absent: "c \<notin> set s \<Longrightarrow> split [c] s = [s]"
  by (simp add: split_def split_from_absent)

lemma restLoop_Nil: "restLoop i [] rb = False"
  by (simp add: restLoop.simps)

text \<open>
  Where no component is NaN, the loop over \<open>rest\<close> is the comparison of the component
  sequences that the specification describes.
\<close>

lemma restLoop_spec:
  "None \<notin> set ra \<Longrightarrow> None \<notin> set rb \<Longrightarrow> i \<le> length ra \<Longrightarrow> i \<le> length rb \<Longrightarrow>
   restLoop i ra rb = spec_components_greater (drop i ra) (drop i rb)"
proof (induction i ra rb rule: restLoop.induct)
  case (1 i ra rb)
  show ?case
  proof (cases "i < length ra \<and> i < length rb")
    case True
    then have da: "drop i ra = ra ! i # drop (Suc i) ra" and db: "drop i rb = rb ! i # drop (Suc i) rb"
      by (simp_all add: Cons_nth_drop_Suc)
    from True 1 obtain x y where xy: "ra ! i = Some x" "rb ! i = Some y"
      by (metis nth_mem not_None_eq)
    show ?thesis
    proof (cases "x = y")
      case True
      with \<open>i < length ra \<and> i < length rb\<close> 1 xy show ?thesis
        by (subst restLoop.simps) (simp add: da db js_ne_def)
    next
      case False
      with \<open>i < length ra \<and> i < length rb\<close> xy show ?thesis
        by (subst restLoop.simps) (simp add: da db js_ne_def js_gt_def)
    qed
  next
    case False
    show ?thesis
    proof (cases "i = length ra")
      case True
      with "1.prems" show ?thesis
        by (subst restLoop.simps) simp
    next
      case ne: False
      with False "1.prems" have "i = length rb" "i < length ra" by auto
      then have "drop i rb = []" "drop i ra = ra ! i # drop (Suc i) ra"
        by (simp_all add: Cons_nth_drop_Suc)
      with \<open>i = length rb\<close> \<open>i < length ra\<close> show ?thesis
        by (subst restLoop.simps) simp
    qed
  qed
qed

text \<open>
  The code and the specification's ranking agree on NaN-free versions unless the major of
  the first version is the smaller one.
\<close>

lemma greaterThan_agrees_unless_lower_major:
  assumes "first a = Some x" "first b = Some y" "y \<le> x"
    and "None \<notin> set (rest a)" "None \<notin> set (rest b)"
  shows "greaterThanPythonPackageVersion a b = spec_greaterThan a b"
  using assms restLoop_spec [of "rest a" "rest b" 0]
  by (auto simp: greaterThanPythonPackageVersion_def spec_greaterThan_def js_gt_def)

lemma ranks_1_2_0_above_1_1_9:
  "parsePythonPackageVersion ''1.2.0'' = Inr \<lparr>epoch = Some 0, first = Some 1, rest = [Some 2, Some 0], isPrerelease = False\<rparr>
   \<and> parsePythonPackageVersion ''1.1.9'' = Inr \<lparr>epoch = Some 0, first = Some 1, rest = [Some 1, Some 9], isPrerelease = False\<rparr>
   \<and> greaterThanPythonPackageVersion
        \<lparr>epoch = Some 0, first = Some 1, rest = [Some 2, Some 0], isPrerelease = False\<rparr>
        \<lparr>epoch = Some 0, first = Some 1, rest = [Some 1, Some 9], isPrerelease = False\<rparr>"
  by code_simp

text \<open>
  Claim C2. The claim: for versions of the same prerelease status, \<open>greaterThan a b\<close> holds
  exactly when the major of \<open>a\<close> is the greater, or the majors are equal and the components
  of \<open>a\<close> win. The code compares the components whenever the major of \<open>a\<close> is not the
  greater, also when it is the smaller: version 1.5 is ranked above version 2.0 (and 2.0
  above 1.5), which the ranking of the specification denies.
\<close>

theorem greaterThan_ranks_lower_major_above:
  "greaterThanPythonPackageVersion
     \<lparr>epoch = Some 0, first = Some 1, rest = [Some 5], isPrerelease = False\<rparr>
     \<lparr>epoch = Some 0, first = Some 2, rest = [Some 0], isPrerelease = False\<rparr>
   \<and> greaterThanPythonPackageVersion
     \<lparr>epoch = Some 0, first = Some 2, rest = [Some 0], isPrerelease = False\<rparr>
     \<lparr>epoch = Some 0, first = Some 1, rest = [Some 5], isPrerelease = False\<rparr>
   \<and> \<not> spec_greaterThan
     \<lparr>epoch = Some 0, first = Some 1, rest = [Some 5], isPrerelease = False\<rparr>
     \<lparr>epoch = Some 0, first = Some 2, rest = [Some 0], isPrerelease = False\<rparr>"
  by code_simp

text \<open>
  Claim C3. The claim: \<open>parse "1!2.3"\<close> has epoch 1, major 2 and components \<open>[3]\<close>. The
  code reads the epoch, then goes on with the second code unit of the whole string, here
  \<open>"!"\<close>, in place of the text after the separator: the major is NaN and there is no
  component.
\<close>

theorem parse_epoch_string_loses_release:
  "parsePythonPackageVersion ''1!2.3''
     = Inr \<lparr>epoch = Some 1, first = None, rest = [], isPrerelease = False\<rparr>"
  by code_simp

lemma parse_epoch_separator_alone: "parsePythonPackageVersion ''!'' = Inl TypeError"
  by code_simp

lemma parse_without_epoch:
  "CHR ''!'' \<notin> set s \<Longrightarrow> \<exists>v. parsePythonPackageVersion s = Inr v"
  by (simp add: parsePythonPackageVersion_def split_limit_def split_absent Let_def split: list.splits)

text \<open>No release string without epoch separator makes the selection throw.\<close>

lemma selectLoop_without_epoch:
  "\<forall>r \<in> set releases. CHR ''!'' \<notin> set r \<Longrightarrow> \<exists>b. selectLoop best releases = Inr b"
proof (induction releases arbitrary: best)
  case Nil
  then show ?case by simp
next
  case (Cons r rs)
  obtain bv bo where best: "best = (bv, bo)" by (cases best)
  from Cons.prems obtain v where v: "parsePythonPackageVersion r = Inr v"
    using parse_without_epoch by auto
  from Cons.prems have rs: "\<forall>r \<in> set rs. CHR ''!'' \<notin> set r" by simp
  show ?case using Cons.IH [OF rs] by (simp add: best v)
qed

text \<open>
  Claim C4, as stated: a malformed release string is left out of the ranking, so that the
  selection is the one made without it. It fails: \<open>"x.9.9"\<close> is no version, yet it is
  selected where \<open>"1.0"\<close> is selected without it. It outranks the sentinel for want of
  a prerelease mark, and \<open>"1.0"\<close> does not outrank it: \<open>1 > NaN\<close> is false and its
  component 0 is below 9.
\<close>

theorem malformed_release_selected:
  "queryDependencyPyPI [''x.9.9'', ''1.0''] = Inr ''x.9.9''
   \<and> queryDependencyPyPI [''1.0''] = Inr ''1.0''
   \<and> queryDependencyPyPI [''x.9.9'', ''1.0''] \<noteq> queryDependencyPyPI [''1.0'']"
  by code_simp

text \<open>
  Claim C4, amended. A malformed release string is not left out of the ranking. Every
  release string without the epoch separator, malformed or not, is parsed without error,
  NaN standing for what is not a number, and replaces the best version exactly when the
  comparator ranks its parse above it; a selection over such strings raises no error. In
  particular a string without \<open>.\<close> that does not start with an integer parses to a
  version with major NaN, no component and no prerelease mark: it replaces the best
  version whenever that is a prerelease, as the sentinel is, and is passed over, the
  selection going on as if the string were absent, whenever the best version is not a
  prerelease.
\<close>

theorem malformed_release_takes_part:
  assumes "CHR ''!'' \<notin> set s"
  shows "\<exists>v. parsePythonPackageVersion s = Inr v
          \<and> selectLoop (bestVersion, bestVersionObject) (s # releases)
              = selectLoop (if greaterThanPythonPackageVersion v bestVersionObject
                            then (s, v) else (bestVersion, bestVersionObject)) releases
          \<and> (CHR ''.'' \<notin> set s \<and> parseInt s = None \<longrightarrow>
                v = \<lparr>epoch = Some 0, first = None, rest = [], isPrerelease = False\<rparr>
              \<and> greaterThanPythonPackageVersion v bestVersionObject = isPrerelease bestVersionObject)
          \<and> ((\<forall>r \<in> set releases. CHR ''!'' \<notin> set r) \<longrightarrow>
                (\<exists>best. selectLoop (bestVersion, bestVersionObject) (s # releases) = Inr best))"
proof -
  from assms obtain v where v: "parsePythonPackageVersion s = Inr v"
    using parse_without_epoch by blast
  have step: "selectLoop (bestVersion, bestVersionObject) (s # releases)
      = selectLoop (if greaterThanPythonPackageVersion v bestVersionObject
                    then (s, v) else (bestVersion, bestVersionObject)) releases"
    by (simp add: v)
  have nan: "v = \<lparr>epoch = Some 0, first = None, rest = [], isPrerelease = False\<rparr>
      \<and> greaterThanPythonPackageVersion v bestVersionObject = isPrerelease bestVersionObject"
    if "CHR ''.'' \<notin> set s" and "parseInt s = None"
  proof -
    from that assms have "parsePythonPackageVersion s
        = Inr \<lparr>epoch = Some 0, first = None, rest = [], isPrerelease = False\<rparr>"
      by (simp add: parsePythonPackageVersion_def split_limit_def split_absent)
    with v have "v = \<lparr>epoch = Some 0, first = None, rest = [], isPrerelease = False\<rparr>" by simp
    then show ?thesis
      by (simp add: greaterThanPythonPackageVersion_def js_gt_def restLoop_Nil)
  qed
  have ok: "\<exists>best. selectLoop (bestVersion, bestVersionObject) (s # releases) = Inr best"
    if "\<forall>r \<in> set releases. CHR ''!'' \<notin> set r"
  proof -
    from that assms have "\<forall>r \<in> set (s # releases). CHR ''!'' \<notin> set r" by simp
    then show ?thesis by (rule selectLoop_without_epoch)
  qed
  show ?thesis
  proof (intro exI [of _ v] conjI impI)
    show "parsePythonPackageVersion s = Inr v" by (rule v)
    show "selectLoop (bestVersion, bestVersionObject) (s # releases)
      = selectLoop (if greaterThanPythonPackageVersion v bestVersionObject
                    then (s, v) else (bestVersion, bestVersionObject)) releases"
      by (rule step)
    show "v = \<lparr>epoch = Some 0, first = None, rest = [], isPrerelease = False\<rparr>"
      if "CHR ''.'' \<notin> set s \<and> parseInt s = None"
      using that nan by blast
    show "greaterThanPythonPackageVersion v bestVersionObject = isPrerelease bestVersionObject"
      if "CHR ''.'' \<notin> set s \<and> parseInt s = None"
      using that nan by blast
    show "\<exists>best. selectLoop (bestVersion, bestVersionObject) (s # releases) = Inr best"
      if "\<forall>r \<in> set releases. CHR ''!'' \<notin> set r"
      using that by (rule ok)
  qed
qed

theorem malformed_release_takes_part_witness:
  "CHR ''!'' \<notin> set ''x'' \<and> CHR ''.'' \<notin> set ''x'' \<and> parseInt ''x'' = None
   \<and> CHR ''!'' \<notin> set ''1.0.0''
   \<and> parsePythonPackageVersion ''x''
        = Inr \<lparr>epoch = Some 0, first = None, rest = [], isPrerelease = False\<rparr>
   \<and> selectLoop (''0'', \<lparr>epoch = Some 0, first = Some 0, rest = [], isPrerelease = True\<rparr>) [''x'', ''1.0.0'']
        = selectLoop (''x'', \<lparr>epoch = Some 0, first = None, rest = [], isPrerelease = False\<rparr>) [''1.0.0'']
   \<and> (\<exists>best. selectLoop (''0'', \<lparr>epoch = Some 0, first = Some 0, rest = [], isPrerelease = True\<rparr>)
          [''x'', ''1.0.0''] = Inr best)"
proof -
  let ?sentinel = "\<lparr>epoch = Some 0, first = Some 0, rest = [], isPrerelease = True\<rparr>"
  let ?nan = "\<lparr>epoch = Some 0, first = None, rest = [], isPrerelease = False\<rparr>"
  have h1: "CHR ''!'' \<notin> set ''x''" by simp
  have h2: "CHR ''.'' \<notin> set ''x''" by simp
  have h3: "parseInt ''x'' = None" by code_simp
  have h4: "\<forall>r \<in> set [''1.0.0'']. CHR ''!'' \<notin> set r" by simp
  from malformed_release_takes_part [OF h1, of "''0''" ?sentinel "[''1.0.0'']"]
  obtain v where p: "parsePythonPackageVersion ''x'' = Inr v"
    and step: "selectLoop (''0'', ?sentinel) [''x'', ''1.0.0'']
        = selectLoop (if greaterThanPythonPackageVersion v ?sentinel then (''x'', v) else (''0'', ?sentinel)) [''1.0.0'']"
    and nan: "CHR ''.'' \<notin> set ''x'' \<and> parseInt ''x'' = None \<longrightarrow>
        v = ?nan \<and> greaterThanPythonPackageVersion v ?sentinel = isPrerelease ?sentinel"
    and ok: "(\<forall>r \<in> set [''1.0.0'']. CHR ''!'' \<notin> set r) \<longrightarrow>
        (\<exists>best. selectLoop (''0'', ?sentinel) [''x'', ''1.0.0''] = Inr best)"
    by blast
  from nan h2 h3 have v: "v = ?nan" by blast
  from nan h2 h3 have "greaterThanPythonPackageVersion v ?sentinel = isPrerelease ?sentinel" by blast
  then have g: "greaterThanPythonPackageVersion v ?sentinel" by simp
  from step g v have "selectLoop (''0'', ?sentinel) [''x'', ''1.0.0''] = selectLoop (''x'', ?nan) [''1.0.0'']"
    by (simp del: selectLoop.simps)
  moreover from p v have "parsePythonPackageVersion ''x'' = Inr ?nan" by simp
  moreover from ok h4 have "\<exists>best. selectLoop (''0'', ?sentinel) [''x'', ''1.0.0''] = Inr best" by blast
  moreover have "CHR ''!'' \<notin> set ''1.0.0''" by simp
  ultimately show ?thesis using h1 h2 h3 by blast
qed


lemma selection_example:
  "queryDependencyPyPI [''1.0.0'', ''1.1.0a1'', ''2.0.0.dev1''] = Inr ''1.0.0''"
  by code_simp

lemma selection_empty: "queryDependencyPyPI [] = Inr ''0''"
  by code_simp

text \<open>
  Claim C5. The claim: the highest release that is not a prerelease wins. Of the releases
  2.0 and 1.5, met in this order, the code selects 1.5: the candidate 1.5 is ranked above
  the best version 2.0 by the comparison of their components \<open>[5]\<close> and \<open>[0]\<close>, made
  although its major is the smaller one.
\<close>

theorem selection_prefers_lower_major:
  "queryDependencyPyPI [''2.0'', ''1.5''] = Inr ''1.5''"
  by code_simp

section \<open>Manifest extraction: properties\<close>

lemma map_of_map_set: "map_of (map_set k v m) = (map_of m)(k \<mapsto> v)"
  by (induction m) (auto simp: fun_eq_iff)

lemma map_has_iff: "map_has k m \<longleftrightarrow> map_of m k \<noteq> None"
  by (simp add: map_has_def map_of_eq_None_iff)

lemma fileLoop_fold:
  "index + length files \<le> length filenames \<Longrightarrow>
   fileLoop index filenames pm files
     = Inr (foldl (\<lambda>pm (sp, file). managerLoop sp file pm) pm (zip (drop index filenames) files))"
proof (induction files arbitrary: index pm)
  case Nil
  then show ?case by simp
next
  case (Cons fl files)
  then have lt: "index < length filenames" by simp
  then have d: "drop index filenames = filenames ! index # drop (Suc index) filenames"
    by (simp add: Cons_nth_drop_Suc)
  from Cons.prems have "Suc index + length files \<le> length filenames" by simp
  from Cons.IH [OF this] lt show ?case by (simp add: d)
qed

lemma recordManifest_lookup:
  "map_of (recordManifest managerName sp file pm) k =
     (if k = managerName
      then Some ((case map_of pm k of None \<Rightarrow> [] | Some es \<Rightarrow> es)
             @ [\<lparr>subPath = sp, blobPath = node_blobPath file, version = '''',
                 dependencies = (if 0 < totalCount file then dependency_nodes file else [])\<rparr>])
      else map_of pm k)"
  by (cases "map_of pm managerName")
     (simp_all add: recordManifest_def map_push_def map_get_def map_has_iff map_of_map_set
        blobPathDeps_def Let_def)

lemma managerLoop_lookup:
  "map_of (managerLoop sp file pm) k =
     (if managerMatches k sp
      then Some ((case map_of pm k of None \<Rightarrow> [] | Some es \<Rightarrow> es)
             @ [\<lparr>subPath = sp, blobPath = node_blobPath file, version = '''',
                 dependencies = (if 0 < totalCount file then dependency_nodes file else [])\<rparr>])
      else map_of pm k)"
  by (simp add: managerLoop_def extensionLoop_def packageManagers_def managerMatches_def
        recordManifest_lookup)

lemma files_fold_lookup:
  "map_of (foldl (\<lambda>pm (sp, file). managerLoop sp file pm) pm xs) k =
     (let es = map (\<lambda>(sp, file). \<lparr>subPath = sp, blobPath = node_blobPath file, version = '''',
                         dependencies = (if 0 < totalCount file then dependency_nodes file else [])\<rparr>)
                 (filter (\<lambda>(sp, file). managerMatches k sp) xs)
      in if es = [] then map_of pm k
         else Some ((case map_of pm k of None \<Rightarrow> [] | Some es \<Rightarrow> es) @ es))"
proof (induction xs arbitrary: pm)
  case Nil
  then show ?case by simp
next
  case (Cons x xs)
  obtain sp fl where x: "x = (sp, fl)" by (cases x)
  show ?case
    by (simp add: x Cons.IH managerLoop_lookup Let_def)
qed

text \<open>
  Claim C8. For every repository whose array of file names is at least as long as its
  array of manifests: \<open>getRepoDependencies\<close> returns, and under every manager the
  package map holds exactly one entry for each file whose name ends with an extension of
  that manager, in the order of the files; the entry of a file that declares no dependency
  is there with the empty list, a file whose name matches no extension leaves no entry,
  and a manager without matching file has no key.
\<close>

theorem manifests_recorded:
  assumes "length (manifest_edges repo) \<le> length (manifest_filenames repo)"
  shows "\<exists>pm. getRepoDependencies repo = Inr \<lparr>manifest = repo, packageMap = pm\<rparr>
          \<and> (\<forall>managerName. map_get managerName pm
                = (if recordedManifests repo managerName = [] then None
                   else Some (recordedManifests repo managerName)))"
proof -
  from assms have "0 + length (manifest_edges repo) \<le> length (manifest_filenames repo)" by simp
  from fileLoop_fold [OF this, of "[]"]
  have "getRepoDependencies repo = Inr \<lparr>manifest = repo, packageMap =
      foldl (\<lambda>pm (sp, file). managerLoop sp file pm) []
        (zip (manifest_filenames repo) (manifest_edges repo))\<rparr>"
    by (simp add: getRepoDependencies_def)
  moreover have "map_get managerName (foldl (\<lambda>pm (sp, file). managerLoop sp file pm) []
        (zip (manifest_filenames repo) (manifest_edges repo)))
      = (if recordedManifests repo managerName = [] then None
         else Some (recordedManifests repo managerName))" for managerName
    by (simp add: map_get_def files_fold_lookup recordedManifests_def Let_def)
  ultimately show ?thesis by blast
qed

theorem manifests_recorded_witness:
  "length (manifest_edges \<lparr>repo_name = ''r'', repo_url = ''u'', repo_isArchived = False,
       manifest_edges = [\<lparr>node_blobPath = ''/b/package.json'', totalCount = 0, dependency_nodes = []\<rparr>,
                         \<lparr>node_blobPath = ''/b/Gemfile'', totalCount = 2, dependency_nodes = []\<rparr>],
       manifest_filenames = [''package.json'', ''Gemfile'']\<rparr>)
   \<le> length (manifest_filenames \<lparr>repo_name = ''r'', repo_url = ''u'', repo_isArchived = False,
       manifest_edges = [\<lparr>node_blobPath = ''/b/package.json'', totalCount = 0, dependency_nodes = []\<rparr>,
                         \<lparr>node_blobPath = ''/b/Gemfile'', totalCount = 2, dependency_nodes = []\<rparr>],
       manifest_filenames = [''package.json'', ''Gemfile'']\<rparr>)
   \<and> (\<exists>pm. getRepoDependencies \<lparr>repo_name = ''r'', repo_url = ''u'', repo_isArchived = False,
       manifest_edges = [\<lparr>node_blobPath = ''/b/package.json'', totalCount = 0, dependency_nodes = []\<rparr>,
                         \<lparr>node_blobPath = ''/b/Gemfile'', totalCount = 2, dependency_nodes = []\<rparr>],
       manifest_filenames = [''package.json'', ''Gemfile'']\<rparr>
        = Inr \<lparr>manifest = \<lparr>repo_name = ''r'', repo_url = ''u'', repo_isArchived = False,
       manifest_edges = [\<lparr>node_blobPath = ''/b/package.json'', totalCount = 0, dependency_nodes = []\<rparr>,
                         \<lparr>node_blobPath = ''/b/Gemfile'', totalCount = 2, dependency_nodes = []\<rparr>],
       manifest_filenames = [''package.json'', ''Gemfile'']\<rparr>, packageMap = pm\<rparr>
      \<and> map_get ''NPM'' pm = Some [\<lparr>subPath = ''package.json'', blobPath = ''/b/package.json'',
                                     version = '''', dependencies = []\<rparr>]
      \<and> map_get ''PYPI'' pm = None)"
proof -
  let ?repo = "\<lparr>repo_name = ''r'', repo_url = ''u'', repo_isArchived = False,
       manifest_edges = [\<lparr>node_blobPath = ''/b/package.json'', totalCount = 0, dependency_nodes = []\<rparr>,
                         \<lparr>node_blobPath = ''/b/Gemfile'', totalCount = 2, dependency_nodes = []\<rparr>],
       manifest_filenames = [''package.json'', ''Gemfile'']\<rparr>"
  have h: "length (manifest_edges ?repo) \<le> length (manifest_filenames ?repo)" by simp
  have n: "recordedManifests ?repo ''NPM'' = [\<lparr>subPath = ''package.json'', blobPath = ''/b/package.json'',
                                     version = '''', dependencies = []\<rparr>]"
    by code_simp
  have p: "recordedManifests ?repo ''PYPI'' = []"
    by code_simp
  from manifests_recorded [OF h] obtain pm where
    pm: "getRepoDependencies ?repo = Inr \<lparr>manifest = ?repo, packageMap = pm\<rparr>"
    and all: "\<forall>managerName. map_get managerName pm
                = (if recordedManifests ?repo managerName = [] then None
                   else Some (recordedManifests ?repo managerName))"
    by blast
  from all n have "map_get ''NPM'' pm = Some [\<lparr>subPath = ''package.json'', blobPath = ''/b/package.json'',
                                     version = '''', dependencies = []\<rparr>]"
    by simp
  moreover from all p have "map_get ''PYPI'' pm = None" by simp
  ultimately show ?thesis using pm h by blast
qed


section \<open>Merging\<close>

lemma keys_map_set: "fst ` set (map_set k v m) = insert k (fst ` set m)"
  by (simp add: dom_map_of_conv_image_fst [symmetric] map_of_map_set)

lemma distinct_map_set: "distinct (map fst m) \<Longrightarrow> distinct (map fst (map_set k v m))"
  by (induction m) (auto simp: keys_map_set)

lemma map_set_fresh: "k \<notin> fst ` set m \<Longrightarrow> map_set k v m = m @ [(k, v)]"
  by (induction m) auto

lemma merged_map_set:
  assumes "merged deps seen" and "distinct xs" and "xs \<noteq> []" and "set xs = S"
  shows "merged (map_set pm xs deps) (seen(pm := S))"
proof -
  have keys: "distinct (map fst (map_set pm xs deps))"
    using assms(1) by (simp add: merged_def distinct_map_set)
  have absent: "\<forall>k. map_of (map_set pm xs deps) k = None \<longrightarrow> (seen(pm := S)) k = {}"
  proof (intro allI impI)
    fix k assume "map_of (map_set pm xs deps) k = None"
    then have "k \<noteq> pm" "map_of deps k = None"
      by (auto simp: map_of_map_set split: if_splits)
    with assms(1) show "(seen(pm := S)) k = {}" by (simp add: merged_def)
  qed
  have present: "\<forall>k ys. map_of (map_set pm xs deps) k = Some ys
       \<longrightarrow> distinct ys \<and> set ys = (seen(pm := S)) k \<and> ys \<noteq> []"
  proof (intro allI impI)
    fix k ys assume ys: "map_of (map_set pm xs deps) k = Some ys"
    show "distinct ys \<and> set ys = (seen(pm := S)) k \<and> ys \<noteq> []"
    proof (cases "k = pm")
      case True
      with ys have "ys = xs" by (simp add: map_of_map_set)
      with True assms show ?thesis by simp
    next
      case False
      with ys have "map_of deps k = Some ys" by (simp add: map_of_map_set)
      with False assms(1) show ?thesis by (simp add: merged_def)
    qed
  qed
  from keys absent present show ?thesis
    unfolding merged_def by blast
qed

lemma addDependency_merged:
  assumes "merged deps seen"
  shows "merged (addDependency pm deps n) (seen(pm := insert n (seen pm)))"
proof (cases "map_of deps pm")
  case None
  then have eq: "addDependency pm deps n = map_set pm [n] (map_set pm [] deps)"
    by (simp add: addDependency_def map_has_iff map_get_def map_of_map_set set_add_def)
  from assms None have e: "seen pm = {}" by (simp add: merged_def)
  have "map_set pm [n] (map_set pm [] deps) = map_set pm [n] deps"
    by (induction deps) auto
  with eq have eq': "addDependency pm deps n = map_set pm [n] deps" by simp
  show ?thesis
    unfolding eq' by (rule merged_map_set [OF assms]) (simp_all add: e)
next
  case (Some xs)
  then have eq: "addDependency pm deps n = map_set pm (set_add n xs) deps"
    by (simp add: addDependency_def map_has_iff map_get_def)
  from assms Some have xs: "distinct xs" "set xs = seen pm" "xs \<noteq> []"
    by (simp_all add: merged_def)
  show ?thesis
    unfolding eq by (rule merged_map_set [OF assms]) (use xs in \<open>auto simp: set_add_def\<close>)
qed

lemma addDependencies_merged:
  "merged deps seen \<Longrightarrow> merged (foldl (addDependency pm) deps ns) (seen(pm := seen pm \<union> set ns))"
proof (induction ns arbitrary: deps seen)
  case Nil
  then show ?case by simp
next
  case (Cons n ns)
  have eq: "(seen(pm := insert n (seen pm)))(pm := (seen(pm := insert n (seen pm))) pm \<union> set ns)
      = seen(pm := seen pm \<union> set (n # ns))"
    by (auto simp: fun_eq_iff)
  have "merged (foldl (addDependency pm) (addDependency pm deps n) ns)
          ((seen(pm := insert n (seen pm)))(pm := (seen(pm := insert n (seen pm))) pm \<union> set ns))"
    by (rule Cons.IH [OF addDependency_merged [OF Cons.prems]])
  then show ?case by (simp only: eq foldl_Cons)
qed

lemma mergeRepos_merged:
  "merged deps seen \<Longrightarrow>
   merged (foldl (mergeRepo pm) deps rs)
     (seen(pm := seen pm \<union> set (concat (map (\<lambda>repo. map fst (repository_dependencies repo)) rs))))"
proof (induction rs arbitrary: deps seen)
  case Nil
  then show ?case by simp
next
  case (Cons r rs)
  let ?ns = "map fst (repository_dependencies r)"
  have m: "merged (mergeRepo pm deps r) (seen(pm := seen pm \<union> set ?ns))"
    unfolding mergeRepo_def by (rule addDependencies_merged [OF Cons.prems])
  have eq: "(seen(pm := seen pm \<union> set ?ns))(pm := (seen(pm := seen pm \<union> set ?ns)) pm
           \<union> set (concat (map (\<lambda>repo. map fst (repository_dependencies repo)) rs)))
      = seen(pm := seen pm \<union> set (concat (map (\<lambda>repo. map fst (repository_dependencies repo)) (r # rs))))"
    by (auto simp: fun_eq_iff)
  have "merged (foldl (mergeRepo pm) (mergeRepo pm deps r) rs)
          ((seen(pm := seen pm \<union> set ?ns))(pm := (seen(pm := seen pm \<union> set ?ns)) pm
           \<union> set (concat (map (\<lambda>repo. map fst (repository_dependencies repo)) rs))))"
    by (rule Cons.IH [OF m])
  then show ?case by (simp only: eq foldl_Cons)
qed

lemma mergeManagers_merged:
  "merged deps seen \<Longrightarrow>
   merged (foldl mergeManager deps managerRepos) (\<lambda>k. seen k \<union> set (declaredNames managerRepos k))"
proof (induction managerRepos arbitrary: deps seen)
  case Nil
  then show ?case by (simp add: declaredNames_def)
next
  case (Cons e es)
  let ?ns = "concat (map (\<lambda>repo. map fst (repository_dependencies repo)) (snd e))"
  have m: "merged (mergeManager deps e) (seen(fst e := seen (fst e) \<union> set ?ns))"
    unfolding mergeManager_def by (rule mergeRepos_merged [OF Cons.prems])
  have eq: "(\<lambda>k. (seen(fst e := seen (fst e) \<union> set ?ns)) k \<union> set (declaredNames es k))
      = (\<lambda>k. seen k \<union> set (declaredNames (e # es) k))"
    by (auto simp: fun_eq_iff declaredNames_def)
  have "merged (foldl mergeManager (mergeManager deps e) es)
          (\<lambda>k. (seen(fst e := seen (fst e) \<union> set ?ns)) k \<union> set (declaredNames es k))"
    by (rule Cons.IH [OF m])
  then show ?case by (simp only: eq foldl_Cons)
qed

lemma copy_loop:
  "distinct (map fst (acc @ deps)) \<Longrightarrow>
   foldl (\<lambda>managerDeps (key, val). map_set key val managerDeps) acc deps = acc @ deps"
proof (induction deps arbitrary: acc)
  case Nil
  then show ?case by simp
next
  case (Cons d ds)
  obtain k v where d: "d = (k, v)" by (cases d)
  from Cons.prems have "k \<notin> fst ` set acc" by (auto simp: d)
  then have "map_set k v acc = acc @ [(k, v)]" by (rule map_set_fresh)
  with Cons.IH [of "acc @ [(k, v)]"] Cons.prems show ?case by (simp add: d)
qed

text \<open>
  Claim C9. For every map from managers to repository entries and every manager \<open>m\<close>:
  the result of \<open>mergeDependenciesLists\<close> has each manager once, and it holds under
  \<open>m\<close> a list without repetition whose elements are exactly the dependency names declared
  under \<open>m\<close>, however often each is declared; a manager with no declared name is absent
  from the result.
\<close>

theorem merge_is_union:
  "distinct (map fst (mergeDependenciesLists managerRepos)) \<and>
   (case map_get m (mergeDependenciesLists managerRepos) of
      None \<Rightarrow> declaredNames managerRepos m = []
    | Some xs \<Rightarrow> distinct xs \<and> set xs = set (declaredNames managerRepos m))"
proof -
  have "merged [] (\<lambda>k. {})" by (simp add: merged_def)
  from mergeManagers_merged [OF this, of managerRepos]
  have m: "merged (foldl mergeManager [] managerRepos) (\<lambda>k. set (declaredNames managerRepos k))"
    by simp
  then have "distinct (map fst ([] @ foldl mergeManager [] managerRepos))"
    by (simp add: merged_def)
  from copy_loop [OF this]
  have eq: "mergeDependenciesLists managerRepos = foldl mergeManager [] managerRepos"
    by (simp add: mergeDependenciesLists_def)
  from m show ?thesis
    unfolding eq merged_def map_get_def
    by (simp split: option.splits)
qed

section \<open>Pagination: properties\<close>

lemma pagingLoop_sourceByCursor_runs_on:
  "pagingLoop fuel sourceByCursor dateNow st = None"
proof (induction fuel arbitrary: st)
  case 0
  show ?case by simp
next
  case (Suc fuel)
  have "\<exists>st'. pageRequest sourceByCursor dateNow st = (None, st') \<and> hasNextPage st'"
    by (simp add: pageRequest_def sourceByCursor_def page1_def MINIMUM_GITHUB_POINTS_def Let_def)
  then obtain st' where "pageRequest sourceByCursor dateNow st = (None, st')" "hasNextPage st'"
    by blast
  with Suc.IH [of st'] show ?case by simp
qed

lemma pageRequest_requests_null:
  "requested (snd (pageRequest queryRepositories dateNow st)) = requested st @ [None]"
  by (simp add: pageRequest_def Let_def split: prod.splits sum.splits)

lemma pagingLoop_requests_null:
  "pagingLoop fuel queryRepositories dateNow st = Some (r, st') \<Longrightarrow>
   \<exists>k. requested st' = requested st @ replicate k None"
proof (induction fuel arbitrary: st)
  case 0
  then show ?case by simp
next
  case (Suc fuel)
  obtain e st1 where p: "pageRequest queryRepositories dateNow st = (e, st1)"
    by (cases "pageRequest queryRepositories dateNow st")
  then have r1: "requested st1 = requested st @ [None]"
    using pageRequest_requests_null [of queryRepositories dateNow st] by simp
  show ?case
  proof (cases "e = None \<and> hasNextPage st1")
    case True
    with Suc.prems p have "pagingLoop fuel queryRepositories dateNow st1 = Some (r, st')"
      by simp
    from Suc.IH [OF this] obtain k where "requested st' = requested st1 @ replicate k None" ..
    with r1 have "requested st' = requested st @ replicate (Suc k) None"
      by (simp add: replicate_app_Cons_same)
    then show ?thesis ..
  next
    case False
    with Suc.prems p have "st' = st1" by (auto split: option.splits if_splits)
    with r1 have "requested st' = requested st @ replicate 1 None" by simp
    then show ?thesis ..
  qed
qed

text \<open>
  Claim C1. The claim: every page request after the first carries the end cursor of the
  page before, so that a source of two pages yields the cursors of both. The code passes
  \<open>null\<close> in every request and never the \<open>repoCursor\<close> it has stored. Against the
  source that serves its pages by cursor the first request returns page 1 and stores its
  end cursor \<open>"b"\<close>, the second request is again made with \<open>null\<close> and returns page 1
  again, and so on: whatever the fuel, the loop has not returned.
\<close>

theorem pagination_requests_null_again:
  "listCursors fuel sourceByCursor dateNow () = None
   \<and> (case pageRequest sourceByCursor dateNow (initialState ()) of
        (e1, st1) \<Rightarrow> e1 = None \<and> hasNextPage st1 \<and> repoCursor st1 = Some ''b''
          \<and> (case pageRequest sourceByCursor dateNow st1 of
               (e2, st2) \<Rightarrow> requested st2 = [None, None]
                 \<and> repoCursors st2 = [Some ''a'', Some ''b'', Some ''a'', Some ''b'']))"
  by (simp add: listCursors_def pagingLoop_sourceByCursor_runs_on)
    (simp add: pageRequest_def sourceByCursor_def page1_def initialState_def
       MINIMUM_GITHUB_POINTS_def Let_def)

text \<open>
  Against a source that hands out its pages in turn whatever cursor is asked for, the two
  pages are collected in order.
\<close>

lemma listCursors_script_two_pages:
  assumes "pageInfo_hasNextPage p1" and "\<not> pageInfo_hasNextPage p2"
    and "MINIMUM_GITHUB_POINTS \<le> rateLimit_remaining p1" and "MINIMUM_GITHUB_POINTS \<le> rateLimit_remaining p2"
  shows "\<exists>st. listCursors (Suc (Suc fuel)) sourceByScript dateNow [p1, p2] = Some (None, st)
            \<and> repoCursors st = map Some (edge_cursors p1 @ edge_cursors p2)"
  using assms
  by (simp add: listCursors_def pageRequest_def sourceByScript_def initialState_def Let_def)

text \<open>
  Claim C7. At any iteration of the pagination loop, for the page the source answers
  with: the cursors of the page are appended to \<open>repoCursors\<close>, and the iteration throws
  exactly when the remaining quota of the page is below 10; the error then carries
  \<open>|resetAt - now| / 1000\<close> seconds, the clock being read after the answer, and the loop
  ends with it, whatever pages would follow.
\<close>

theorem quota_exceeded_below_minimum:
  assumes "queryRepositories (world st) None = (Inr response, w)"
  shows "fst (pageRequest queryRepositories dateNow st)
           = (if rateLimit_remaining response < 10
              then Some (RateLimitReached (of_int \<bar>rateLimit_resetAt response - dateNow w\<bar> / 1000))
              else None)
       \<and> repoCursors (snd (pageRequest queryRepositories dateNow st))
           = repoCursors st @ map Some (edge_cursors response)
       \<and> (rateLimit_remaining response < 10 \<longrightarrow>
            pagingLoop (Suc fuel) queryRepositories dateNow st
              = Some (pageRequest queryRepositories dateNow st))"
  using assms
  by (auto simp: pageRequest_def MINIMUM_GITHUB_POINTS_def Let_def)

theorem quota_exceeded_below_minimum_witness:
  "sourceByScript [page1\<lparr>rateLimit_remaining := 9, rateLimit_resetAt := 2500\<rparr>, page2] None
     = (Inr (page1\<lparr>rateLimit_remaining := 9, rateLimit_resetAt := 2500\<rparr>), [page2])
   \<and> listCursors 1 sourceByScript (\<lambda>w. 5000) [page1\<lparr>rateLimit_remaining := 9, rateLimit_resetAt := 2500\<rparr>, page2]
     = Some (Some (RateLimitReached (5 / 2)),
         \<lparr>world = [page2], requested = [None], repoCursors = [Some ''a'', Some ''b''],
          hasNextPage = True, repoCursor = Some ''b''\<rparr>)"
proof -
  let ?p = "page1\<lparr>rateLimit_remaining := 9, rateLimit_resetAt := 2500\<rparr>"
  let ?st = "initialState [?p, page2]"
  have h: "sourceByScript (world ?st) None = (Inr ?p, [page2])"
    by (simp add: sourceByScript_def initialState_def)
  have r: "rateLimit_remaining ?p < 10" by (simp add: page1_def)
  from quota_exceeded_below_minimum [where queryRepositories = sourceByScript and st = ?st and response = ?p
      and w = "[page2]" and dateNow = "\<lambda>w. 5000" and fuel = 0, OF h] r
  have "fst (pageRequest sourceByScript (\<lambda>w. 5000) ?st) = Some (RateLimitReached (5 / 2))"
    and "pagingLoop 1 sourceByScript (\<lambda>w. 5000) ?st = Some (pageRequest sourceByScript (\<lambda>w. 5000) ?st)"
    by (simp_all add: page1_def)
  moreover have "snd (pageRequest sourceByScript (\<lambda>w. 5000) ?st)
     = \<lparr>world = [page2], requested = [None], repoCursors = [Some ''a'', Some ''b''],
          hasNextPage = True, repoCursor = Some ''b''\<rparr>"
    by (simp add: pageRequest_def sourceByScript_def initialState_def page1_def Let_def)
  ultimately show ?thesis
    using h by (simp add: listCursors_def initialState_def prod_eq_iff)
qed


section \<open>Batched fetch: properties\<close>

lemma issueLoop_closed_form:
  "issueLoop c cs =
     map (\<lambda>k. \<lparr>curCursorCopy = c + k * numOfPages, pageSize = numOfPages,
                anchor = cs ! (c + k * numOfPages)\<rparr>)
       [0..<(length cs - c + numOfPages - 1) div numOfPages]"
proof (induction c cs rule: issueLoop.induct)
  case (1 c cs)
  show ?case
  proof (cases "c < length cs")
    case True
    then have n: "(length cs - c + numOfPages - 1) div numOfPages
        = Suc ((length cs - (c + numOfPages) + numOfPages - 1) div numOfPages)"
      by (simp add: numOfPages_def) presburger
    have shift: "map (\<lambda>k. \<lparr>curCursorCopy = c + k * numOfPages, pageSize = numOfPages,
                anchor = cs ! (c + k * numOfPages)\<rparr>) [0..<Suc m]
       = \<lparr>curCursorCopy = c, pageSize = numOfPages, anchor = cs ! c\<rparr>
         # map (\<lambda>k. \<lparr>curCursorCopy = c + numOfPages + k * numOfPages, pageSize = numOfPages,
                anchor = cs ! (c + numOfPages + k * numOfPages)\<rparr>) [0..<m]" for m
      by (simp only: upt_conv_Cons [of 0 "Suc m"] map_Suc_upt [symmetric] list.map)
         (simp add: comp_def add.assoc)
    from True 1 show ?thesis
      by (subst issueLoop.simps) (simp only: n shift if_True)
  next
    case False
    then show ?thesis
      by (subst issueLoop.simps) (simp add: numOfPages_def)
  qed
qed

lemma issued_requests:
  "issueLoop 0 cs =
     map (\<lambda>k. \<lparr>curCursorCopy = k * numOfPages, pageSize = numOfPages, anchor = cs ! (k * numOfPages)\<rparr>)
       [0..<(length cs + numOfPages - 1) div numOfPages]"
  using issueLoop_closed_form [of 0 cs] by simp

lemma issued_in_range:
  assumes "r \<in> set (issueLoop 0 cs)"
  shows "curCursorCopy r < length cs \<and> anchor r = cs ! curCursorCopy r"
proof -
  from assms obtain k where k: "k < (length cs + numOfPages - 1) div numOfPages"
    and r: "r = \<lparr>curCursorCopy = k * numOfPages, pageSize = numOfPages, anchor = cs ! (k * numOfPages)\<rparr>"
    unfolding issued_requests by auto
  from k have "k * numOfPages < length cs"
    by (simp add: numOfPages_def)
  with r show ?thesis by simp
qed

lemma settle_loop:
  "\<forall>r \<in> set rs. curCursorCopy r < length cs \<and> anchor r = cs ! curCursorCopy r \<Longrightarrow>
   foldl (onSettled q cs) acc rs =
     (fst acc @ map (projr \<circ> q) (filter (\<lambda>r. \<not> isl (q r)) rs),
      snd acc @ map anchor (filter (\<lambda>r. isl (q r)) rs))"
proof (induction rs arbitrary: acc)
  case Nil
  then show ?case by simp
next
  case (Cons r rs)
  then have IH: "foldl (onSettled q cs) (onSettled q cs acc r) rs =
     (fst (onSettled q cs acc r) @ map (projr \<circ> q) (filter (\<lambda>r. \<not> isl (q r)) rs),
      snd (onSettled q cs acc r) @ map anchor (filter (\<lambda>r. isl (q r)) rs))"
    by simp
  from Cons.prems have r: "curCursorCopy r < length cs" "anchor r = cs ! curCursorCopy r" by simp_all
  show ?case
    unfolding foldl_Cons IH by (cases "q r") (simp_all add: onSettled_def r)
qed

lemma fetchBatches_eq:
  assumes "mset (settleOrder (issueLoop 0 (overwriteFirst collected))) = mset (issueLoop 0 (overwriteFirst collected))"
  shows "fetchBatches q settleOrder collected =
     (map (projr \<circ> q) (filter (\<lambda>r. \<not> isl (q r)) (settleOrder (issueLoop 0 (overwriteFirst collected)))),
      map anchor (filter (\<lambda>r. isl (q r)) (settleOrder (issueLoop 0 (overwriteFirst collected)))))"
proof -
  from assms have "set (settleOrder (issueLoop 0 (overwriteFirst collected))) = set (issueLoop 0 (overwriteFirst collected))"
    by (rule mset_eq_setD)
  then have "\<forall>r \<in> set (settleOrder (issueLoop 0 (overwriteFirst collected))).
      curCursorCopy r < length (overwriteFirst collected) \<and> anchor r = overwriteFirst collected ! curCursorCopy r"
    using issued_in_range by blast
  from settle_loop [OF this, where q = q and acc = "([], [])"] show ?thesis
    by (simp add: fetchBatches_def Let_def)
qed

text \<open>
  Claim C6. For every list of collected cursors, every answer of the upstream service and
  every order in which the promises settle: one request is issued per group of
  \<open>numOfPages\<close> cursors, the request of group \<open>k\<close> being anchored at the cursor of index
  \<open>k * numOfPages\<close> of the list (whose first element has been overwritten); after all have
  settled, the successful responses are those of the requests that were fulfilled and the
  failed list holds the anchors of the requests that were rejected, one each.
\<close>

theorem fetchBatches_isolates_failures:
  assumes "mset (settleOrder (issueLoop 0 (overwriteFirst collected)))
         = mset (issueLoop 0 (overwriteFirst collected))"
  shows "issueLoop 0 (overwriteFirst collected) =
           map (\<lambda>k. \<lparr>curCursorCopy = k * numOfPages, pageSize = numOfPages,
                      anchor = overwriteFirst collected ! (k * numOfPages)\<rparr>)
             [0..<(length (overwriteFirst collected) + numOfPages - 1) div numOfPages]
       \<and> mset (fst (fetchBatches queryDependencies settleOrder collected)) =
           image_mset (projr \<circ> queryDependencies)
             (filter_mset (\<lambda>r. \<not> isl (queryDependencies r)) (mset (issueLoop 0 (overwriteFirst collected))))
       \<and> mset (snd (fetchBatches queryDependencies settleOrder collected)) =
           image_mset anchor
             (filter_mset (\<lambda>r. isl (queryDependencies r)) (mset (issueLoop 0 (overwriteFirst collected))))"
proof -
  have m: "mset (map f (filter P (settleOrder (issueLoop 0 (overwriteFirst collected)))))
      = image_mset f (filter_mset P (mset (issueLoop 0 (overwriteFirst collected))))" for f :: "request \<Rightarrow> 'b" and P
    by (simp add: assms)
  show ?thesis
    unfolding fetchBatches_eq [where settleOrder = settleOrder and collected = collected, OF assms]
      fst_conv snd_conv
    by (intro conjI issued_requests m)
qed

theorem fetchBatches_isolates_failures_witness:
  "mset (rev (issueLoop 0 (overwriteFirst ([Some ''a'', Some ''b'', Some ''c'', Some ''d'', Some ''e'', Some ''f'', Some ''g'']))))
     = mset (issueLoop 0 (overwriteFirst ([Some ''a'', Some ''b'', Some ''c'', Some ''d'', Some ''e'', Some ''f'', Some ''g''])))
   \<and> length (issueLoop 0 (overwriteFirst ([Some ''a'', Some ''b'', Some ''c'', Some ''d'', Some ''e'', Some ''f'', Some ''g'']))) = 3
   \<and> mset (fst (fetchBatches (\<lambda>r. if curCursorCopy r = 3 then Inl (Rejected ''boom'') else Inr (curCursorCopy r)) rev
        ([Some ''a'', Some ''b'', Some ''c'', Some ''d'', Some ''e'', Some ''f'', Some ''g'']))) = {#0, 6#}
   \<and> mset (snd (fetchBatches (\<lambda>r. if curCursorCopy r = 3 then Inl (Rejected ''boom'') else Inr (curCursorCopy r)) rev
        ([Some ''a'', Some ''b'', Some ''c'', Some ''d'', Some ''e'', Some ''f'', Some ''g'']))) = {#Some ''d''#}"
proof -
  let ?cs = "[Some ''a'', Some ''b'', Some ''c'', Some ''d'', Some ''e'', Some ''f'', Some ''g'']"
  let ?q = "\<lambda>r. if curCursorCopy r = 3 then Inl (Rejected ''boom'') else Inr (curCursorCopy r) :: error + nat"
  have h: "mset (rev (issueLoop 0 (overwriteFirst ?cs))) = mset (issueLoop 0 (overwriteFirst ?cs))"
    by simp
  have i: "issueLoop 0 (overwriteFirst ?cs) =
     [\<lparr>curCursorCopy = 0, pageSize = 3, anchor = None\<rparr>,
      \<lparr>curCursorCopy = 3, pageSize = 3, anchor = Some ''d''\<rparr>,
      \<lparr>curCursorCopy = 6, pageSize = 3, anchor = Some ''g''\<rparr>]"
    by code_simp
  note t = fetchBatches_isolates_failures [where settleOrder = rev and collected = ?cs
      and queryDependencies = ?q, OF h]
  from t [THEN conjunct2] have "mset (fst (fetchBatches ?q rev ?cs)) = {#0, 6#}
      \<and> mset (snd (fetchBatches ?q rev ?cs)) = {#Some ''d''#}"
    by (simp add: i)
  with h i show ?thesis by simp
qed

text \<open>
  Claim C10. For every list of collected cursors, the empty one included: the first
  element of the list is \<open>null\<close> when the requests are issued, the first request is
  issued with the anchor \<open>null\<close>, every rejected request records its anchor in the failed
  list, and so a rejection of the first request records \<open>null\<close>.
\<close>

theorem first_group_anchor_is_null:
  assumes "mset (settleOrder (issueLoop 0 (overwriteFirst collected)))
         = mset (issueLoop 0 (overwriteFirst collected))"
  shows "overwriteFirst collected ! 0 = None
       \<and> (\<exists>others. issueLoop 0 (overwriteFirst collected)
             = \<lparr>curCursorCopy = 0, pageSize = numOfPages, anchor = None\<rparr> # others)
       \<and> snd (fetchBatches queryDependencies settleOrder collected)
           = map anchor (filter (\<lambda>r. isl (queryDependencies r))
               (settleOrder (issueLoop 0 (overwriteFirst collected))))
       \<and> (isl (queryDependencies \<lparr>curCursorCopy = 0, pageSize = numOfPages, anchor = None\<rparr>)
            \<longrightarrow> None \<in> set (snd (fetchBatches queryDependencies settleOrder collected)))"
proof -
  let ?cs = "overwriteFirst collected"
  let ?r0 = "\<lparr>curCursorCopy = 0, pageSize = numOfPages, anchor = None\<rparr>"
  have z: "?cs ! 0 = None" and len: "0 < length ?cs"
    by (simp_all add: overwriteFirst_def)
  from len have first: "issueLoop 0 ?cs = ?r0 # issueLoop (0 + numOfPages) ?cs"
    by (subst issueLoop.simps) (simp add: z)
  have failed: "snd (fetchBatches queryDependencies settleOrder collected)
      = map anchor (filter (\<lambda>r. isl (queryDependencies r)) (settleOrder (issueLoop 0 ?cs)))"
    by (simp add: fetchBatches_eq [where settleOrder = settleOrder and collected = collected, OF assms])
  have "None \<in> set (snd (fetchBatches queryDependencies settleOrder collected))"
    if rej: "isl (queryDependencies ?r0)"
  proof -
    from first have "?r0 \<in> set (issueLoop 0 ?cs)" by simp
    with assms have "?r0 \<in> set (settleOrder (issueLoop 0 ?cs))"
      using mset_eq_setD by blast
    with rej have "?r0 \<in> set (filter (\<lambda>r. isl (queryDependencies r)) (settleOrder (issueLoop 0 ?cs)))"
      by simp
    then have "anchor ?r0 \<in> anchor ` set (filter (\<lambda>r. isl (queryDependencies r)) (settleOrder (issueLoop 0 ?cs)))"
      by (rule imageI)
    then show ?thesis unfolding failed by simp
  qed
  with z first failed show ?thesis by blast
qed

theorem first_group_anchor_is_null_witness:
  "mset ((\<lambda>issued. issued) (issueLoop 0 (overwriteFirst [Some ''a'', Some ''b''])))
     = mset (issueLoop 0 (overwriteFirst [Some ''a'', Some ''b'']))
   \<and> isl ((\<lambda>r. Inl (Rejected ''boom'') :: error + nat)
          \<lparr>curCursorCopy = 0, pageSize = numOfPages, anchor = None\<rparr>)
   \<and> overwriteFirst [Some ''a'', Some ''b''] ! 0 = None
   \<and> None \<in> set (snd (fetchBatches (\<lambda>r. Inl (Rejected ''boom'') :: error + nat) (\<lambda>issued. issued)
                        [Some ''a'', Some ''b'']))"
proof -
  have h: "mset ((\<lambda>issued. issued) (issueLoop 0 (overwriteFirst [Some ''a'', Some ''b''])))
     = mset (issueLoop 0 (overwriteFirst [Some ''a'', Some ''b'']))"
    by simp
  have r: "isl ((\<lambda>r. Inl (Rejected ''boom'') :: error + nat)
          \<lparr>curCursorCopy = 0, pageSize = numOfPages, anchor = None\<rparr>)"
    by simp
  note t = first_group_anchor_is_null [where settleOrder = "\<lambda>issued. issued"
      and collected = "[Some ''a'', Some ''b'']"
      and queryDependencies = "\<lambda>r. Inl (Rejected ''boom'') :: error + nat", OF h]
  from t r show ?thesis by blast
qed

end
